theory Spec2Isabelle
  imports Main "HOL-Library.Word"
begin

section \<open>Data model\<close>

text \<open>
  A shallow embedding of \<^verbatim>\<open>src/streaming_vad/streaming_vad.py\<close> (class
  \<^verbatim>\<open>StreamingVAD\<close>) and of the interface of the VAD units in
  \<^verbatim>\<open>src/streaming_vad/vad_unit/\<close>. Python's \<^verbatim>\<open>bytes\<close> is a list of 8-bit
  words, Python's unbounded \<^verbatim>\<open>int\<close> is \<open>int\<close>, a mutable object is a record that
  every operation returns updated, and every \<^verbatim>\<open>assert\<close> and \<^verbatim>\<open>raise\<close> is a value
  of type \<open>error\<close>.
\<close>

type_synonym bytes = "8 word list"

text \<open>\<^verbatim>\<open>class VADState(Enum)\<close>, in the order of the source.\<close>

datatype VADState = Idle | Started | Ended | Continue

text \<open>\<^verbatim>\<open>@dataclass class VADData\<close>: the event returned by every call of \<^verbatim>\<open>process\<close>.\<close>

record VADData =
  state :: VADState
  data :: "bytes list"

text \<open>
  The exceptions of the source, one constructor per place that raises:
  the four assertions and the modulo by zero of \<^verbatim>\<open>StreamingVAD.__init__\<close>, the
  assertion at the head of \<^verbatim>\<open>StreamingVAD.process\<close>, the assertion at the head of the
  VAD unit's \<^verbatim>\<open>process\<close>, and the \<^verbatim>\<open>ValueError\<close> of the final \<^verbatim>\<open>else\<close> of
  \<^verbatim>\<open>StreamingVAD.process\<close>.
\<close>

datatype error =
    SampleRateMismatch
  | SampleWidthMismatch
  | SamplesPerFrameMismatch
  | ZeroDivisionError
  | SamplesPerFrameNotMultiple
  | InvalidFrameSize
  | VADUnitInvalidDataSize
  | InvalidVADState

subsection \<open>The VAD unit\<close>

text \<open>
  \<^verbatim>\<open>VADUnitBase\<close> with what both subclasses (\<^verbatim>\<open>VADUnitSilero\<close>, \<^verbatim>\<open>VADUnitWebRTC\<close>)
  share: the three read-only properties, and a \<^verbatim>\<open>process\<close> that asserts the size of
  its input and then asks an external detector (the torch model, \<^verbatim>\<open>webrtcvad.Vad\<close>).
  The detector is a parameter: \<open>unit_model\<close> maps the detector's internal state and the
  window to the verdict and the detector's next state.
\<close>

record 'u VADUnit =
  unit_sample_rate :: int
  unit_sample_width :: int
  unit_samples_per_frame :: int
  unit_model :: "'u \<Rightarrow> bytes \<Rightarrow> bool \<times> 'u"
  unit_state :: 'u

text \<open>
  Both constructors set
  \<^verbatim>\<open>self._actual_frame_size_in_bytes = self._sample_width * self._samples_per_frame\<close>
  and nothing changes it afterwards.
\<close>

definition unit_actual_frame_size_in_bytes :: "'u VADUnit \<Rightarrow> int" where
  "unit_actual_frame_size_in_bytes vu = unit_sample_width vu * unit_samples_per_frame vu"

text \<open>\<^verbatim>\<open>VADUnitSilero.process\<close> / \<^verbatim>\<open>VADUnitWebRTC.process\<close>.\<close>

definition unit_process :: "'u VADUnit \<Rightarrow> bytes \<Rightarrow> error + bool \<times> 'u VADUnit" where
  "unit_process vu d =
     (if int (length d) = unit_actual_frame_size_in_bytes vu
      then (case unit_model vu (unit_state vu) d of
              (r, s') \<Rightarrow> Inr (r, vu\<lparr>unit_state := s'\<rparr>))
      else Inl VADUnitInvalidDataSize)"

subsection \<open>The streaming VAD\<close>

text \<open>
  The attributes of a \<^verbatim>\<open>StreamingVAD\<close> object. \<open>vad_unit_count\<close> is the attribute that
  lines 161 and 175 of \<^verbatim>\<open>streaming_vad.py\<close> assign; \<^verbatim>\<open>__init__\<close> does not create
  it, so it is absent (\<open>None\<close>) until one of those lines runs.
\<close>

record 'u StreamingVAD =
  sample_rate :: int
  sample_width :: int
  samples_per_frame :: int
  start_frame_num_thresh :: int
  start_frame_rollback :: int
  end_frame_num_thresh :: int
  output_idle_frame :: bool
  vad_unit :: "'u VADUnit"
  actual_frame_size_in_bytes :: int
  vad_unit_frame_ratio :: int
  vad_unit_frame_buffer :: "bytes list"
  prev_vad_unit_result :: bool
  vad_unit_result_count :: int
  vad_state :: VADState
  vad_result_buffer :: "bytes list"
  vad_unit_count :: "int option"

section \<open>Operations\<close>

text \<open>
  \<^verbatim>\<open>StreamingVAD.__init__\<close>, from the point where the VAD unit has been built
  (line 93): the unit is the last argument. The assertions are checked in the order of
  the source; \<^verbatim>\<open>%\<close> by zero raises before the last assertion can compare.
\<close>

definition StreamingVAD_init ::
  "int \<Rightarrow> int \<Rightarrow> int \<Rightarrow> int \<Rightarrow> int \<Rightarrow> int \<Rightarrow> bool \<Rightarrow> 'u VADUnit \<Rightarrow> error + 'u StreamingVAD" where
  "StreamingVAD_init sample_rate' sample_width' samples_per_frame' start_frame_num_thresh'
       start_frame_rollback' end_frame_num_thresh' output_idle_frame' vu =
     (if sample_rate' \<noteq> unit_sample_rate vu then Inl SampleRateMismatch
      else if sample_width' \<noteq> unit_sample_width vu then Inl SampleWidthMismatch
      else if \<not> samples_per_frame' \<le> unit_samples_per_frame vu then Inl SamplesPerFrameMismatch
      else if samples_per_frame' = 0 then Inl ZeroDivisionError
      else if unit_samples_per_frame vu mod samples_per_frame' \<noteq> 0
        then Inl SamplesPerFrameNotMultiple
      else Inr \<lparr>
        sample_rate = sample_rate',
        sample_width = sample_width',
        samples_per_frame = samples_per_frame',
        start_frame_num_thresh = start_frame_num_thresh',
        start_frame_rollback = start_frame_rollback',
        end_frame_num_thresh = end_frame_num_thresh',
        output_idle_frame = output_idle_frame',
        vad_unit = vu,
        actual_frame_size_in_bytes = sample_width' * samples_per_frame',
        vad_unit_frame_ratio = unit_samples_per_frame vu div samples_per_frame',
        vad_unit_frame_buffer = [],
        prev_vad_unit_result = False,
        vad_unit_result_count = 0,
        vad_state = Idle,
        vad_result_buffer = [],
        vad_unit_count = None \<rparr>)"

text \<open>\<^verbatim>\<open>StreamingVAD.reset\<close> (lines 122-128).\<close>

definition reset :: "'u StreamingVAD \<Rightarrow> 'u StreamingVAD" where
  "reset e = e\<lparr>
     vad_unit_frame_buffer := [],
     prev_vad_unit_result := False,
     vad_unit_result_count := 0,
     vad_state := Idle,
     vad_result_buffer := [] \<rparr>"

text \<open>
  \<^verbatim>\<open>StreamingVAD.process\<close>, lines 135-144: the frame joins the buffer of the VAD unit;
  a full buffer is joined and classified, then cleared; otherwise the previous verdict
  is taken. The verdict is stored in \<open>prev_vad_unit_result\<close>. When the unit raises, the
  object is left with the frame appended.
\<close>

definition classify_step ::
  "'u StreamingVAD \<Rightarrow> bytes \<Rightarrow> (error + bool) \<times> 'u StreamingVAD" where
  "classify_step e audio_data =
     (let e1 = e\<lparr>vad_unit_frame_buffer := vad_unit_frame_buffer e @ [audio_data]\<rparr> in
      if int (length (vad_unit_frame_buffer e1)) = vad_unit_frame_ratio e1 then
        (case unit_process (vad_unit e1) (concat (vad_unit_frame_buffer e1)) of
           Inl err \<Rightarrow> (Inl err, e1)
         | Inr (vad_result, vu) \<Rightarrow>
             (Inr vad_result,
              e1\<lparr>vad_unit := vu, vad_unit_frame_buffer := [],
                 prev_vad_unit_result := vad_result\<rparr>))
      else (Inr (prev_vad_unit_result e1),
            e1\<lparr>prev_vad_unit_result := prev_vad_unit_result e1\<rparr>))"

text \<open>
  Lines 146-151: the frame joins the result buffer, and the oldest frame is popped when
  the buffer has grown beyond \<open>start_frame_rollback\<close>. The popped frame is
  \<^verbatim>\<open>overflow_data\<close>. The buffer ends with \<open>audio_data\<close>, so \<^verbatim>\<open>pop(0)\<close> never meets
  an empty list.
\<close>

definition rollback_step ::
  "'u StreamingVAD \<Rightarrow> bytes \<Rightarrow> bytes option \<times> 'u StreamingVAD" where
  "rollback_step e audio_data =
     (let buf = vad_result_buffer e @ [audio_data] in
      if int (length buf) > start_frame_rollback e then
        (case buf of
           x # rest \<Rightarrow> (Some x, e\<lparr>vad_result_buffer := rest\<rparr>)
         | [] \<Rightarrow> (None, e\<lparr>vad_result_buffer := []\<rparr>))
      else (None, e\<lparr>vad_result_buffer := buf\<rparr>))"

text \<open>
  Lines 153-182: the two resting states. Lines 161 and 175 assign \<open>vad_unit_count\<close>;
  \<open>vad_unit_result_count\<close> is assigned at lines 155, 157, 169 and 171 only.
\<close>

definition hysteresis_step ::
  "'u StreamingVAD \<Rightarrow> bool \<Rightarrow> bytes option \<Rightarrow> (error + VADData) \<times> 'u StreamingVAD" where
  "hysteresis_step e vad_result overflow_data =
     (case vad_state e of
        Idle \<Rightarrow>
          (let e1 = e\<lparr>vad_unit_result_count :=
                        (if vad_result then vad_unit_result_count e + 1 else 0)\<rparr> in
           if vad_unit_result_count e1 \<ge> start_frame_num_thresh e1 then
             (Inr \<lparr>state = Started, data = vad_result_buffer e1\<rparr>,
              e1\<lparr>vad_result_buffer := [], vad_unit_count := Some 0, vad_state := Continue\<rparr>)
           else
             (Inr \<lparr>state = Idle,
                   data = (case overflow_data of
                             Some x \<Rightarrow> if output_idle_frame e1 then [x] else []
                           | None \<Rightarrow> [])\<rparr>,
              e1))
      | Continue \<Rightarrow>
          (let e1 = e\<lparr>vad_unit_result_count :=
                        (if vad_result then 0 else vad_unit_result_count e + 1)\<rparr> in
           if vad_unit_result_count e1 \<ge> end_frame_num_thresh e1 then
             (Inr \<lparr>state = Ended, data = vad_result_buffer e1\<rparr>,
              e1\<lparr>vad_result_buffer := [], vad_unit_count := Some 0, vad_state := Idle\<rparr>)
           else
             (Inr \<lparr>state = Continue, data = vad_result_buffer e1\<rparr>,
              e1\<lparr>vad_result_buffer := []\<rparr>))
      | _ \<Rightarrow> (Inl InvalidVADState, e))"

text \<open>
  \<^verbatim>\<open>StreamingVAD.process\<close>: the assertion of line 133 comes before any assignment, so
  a frame of the wrong size leaves the object as it was. The result is the event or the
  exception, together with the object after the call.
\<close>

definition process ::
  "'u StreamingVAD \<Rightarrow> bytes \<Rightarrow> (error + VADData) \<times> 'u StreamingVAD" where
  "process e audio_data =
     (if int (length audio_data) \<noteq> actual_frame_size_in_bytes e then (Inl InvalidFrameSize, e)
      else
        (case classify_step e audio_data of
           (Inl err, e1) \<Rightarrow> (Inl err, e1)
         | (Inr vad_result, e1) \<Rightarrow>
             (case rollback_step e1 audio_data of
                (overflow_data, e2) \<Rightarrow> hysteresis_step e2 vad_result overflow_data)))"

text \<open>
  A caller feeding a sequence of frames, one call of \<^verbatim>\<open>process\<close> per frame, as the
  loop of \<^verbatim>\<open>__main__\<close> does: the events in order, or the first exception, which ends
  the run.
\<close>

fun process_frames ::
  "'u StreamingVAD \<Rightarrow> bytes list \<Rightarrow> (error + VADData list) \<times> 'u StreamingVAD" where
  "process_frames e [] = (Inr [], e)"
| "process_frames e (f # fs) =
     (case process e f of
        (Inl err, e') \<Rightarrow> (Inl err, e')
      | (Inr ev, e') \<Rightarrow>
          (case process_frames e' fs of
             (Inl err, e'') \<Rightarrow> (Inl err, e'')
           | (Inr evs, e'') \<Rightarrow> (Inr (ev # evs), e'')))"

section \<open>Reachable engines and their invariant\<close>

text \<open>A frame of the size that line 133 asserts.\<close>

definition valid_frame :: "'u StreamingVAD \<Rightarrow> bytes \<Rightarrow> bool" where
  "valid_frame e f \<longleftrightarrow> int (length f) = actual_frame_size_in_bytes e"

text \<open>
  The objects a program can hold: what \<^verbatim>\<open>__init__\<close> returns, and what any call of
  \<^verbatim>\<open>process\<close> (returning or raising) or of \<^verbatim>\<open>reset\<close> leaves behind.
\<close>

inductive reachable :: "'u StreamingVAD \<Rightarrow> bool" where
  reachable_init:
    "StreamingVAD_init sr sw spf st rb en oi vu = Inr e \<Longrightarrow> reachable e"
| reachable_process:
    "reachable e \<Longrightarrow> reachable (snd (process e f))"
| reachable_reset:
    "reachable e \<Longrightarrow> reachable (reset e)"

text \<open>
  What the assertions of \<^verbatim>\<open>__init__\<close> establish and every operation keeps: the frame
  size is width times samples, the unit has the engine's sample width, the unit's frame
  is \<open>vad_unit_frame_ratio\<close> engine frames, the unit's buffer holds frames of the
  right size and fewer than the ratio, the resting state is \<open>Idle\<close> or \<open>Continue\<close>,
  and in \<open>Continue\<close> the result buffer is empty between calls.
\<close>

definition engine_ok :: "'u StreamingVAD \<Rightarrow> bool" where
  "engine_ok e \<longleftrightarrow>
     actual_frame_size_in_bytes e = sample_width e * samples_per_frame e \<and>
     sample_width e = unit_sample_width (vad_unit e) \<and>
     samples_per_frame e \<noteq> 0 \<and>
     unit_samples_per_frame (vad_unit e) mod samples_per_frame e = 0 \<and>
     vad_unit_frame_ratio e = unit_samples_per_frame (vad_unit e) div samples_per_frame e \<and>
     (\<forall>f \<in> set (vad_unit_frame_buffer e). int (length f) = actual_frame_size_in_bytes e) \<and>
     (0 < vad_unit_frame_ratio e \<longrightarrow>
        int (length (vad_unit_frame_buffer e)) < vad_unit_frame_ratio e) \<and>
     (vad_state e = Idle \<or> vad_state e = Continue) \<and>
     (vad_state e = Continue \<longrightarrow> vad_result_buffer e = [])"

text \<open>
  The call of \<^verbatim>\<open>process\<close> on a frame reaches \<^verbatim>\<open>self.vad_unit.process\<close> exactly when
  the frame fills the unit's buffer (line 139).
\<close>

definition classifier_invoked :: "'u StreamingVAD \<Rightarrow> bool" where
  "classifier_invoked e \<longleftrightarrow>
     int (length (vad_unit_frame_buffer e)) + 1 = vad_unit_frame_ratio e"

text \<open>
  The verdicts that the VAD unit returns during a run, one per call of the unit, in
  order: the value of \<^verbatim>\<open>vad_result\<close> (kept in \<open>prev_vad_unit_result\<close>) of each call
  of \<^verbatim>\<open>process\<close> that invoked the unit.
\<close>

fun window_results :: "'u StreamingVAD \<Rightarrow> bytes list \<Rightarrow> bool list" where
  "window_results e [] = []"
| "window_results e (f # fs) =
     (case process e f of
        (Inl err, e') \<Rightarrow> []
      | (Inr ev, e') \<Rightarrow>
          (if classifier_invoked e then [prev_vad_unit_result e'] else [])
            @ window_results e' fs)"

text \<open>
  Two engines built with the same arguments of \<^verbatim>\<open>__init__\<close> and with units of the
  same sample rate, sample width and frame size.
\<close>

definition same_config :: "'u StreamingVAD \<Rightarrow> 'v StreamingVAD \<Rightarrow> bool" where
  "same_config a b \<longleftrightarrow>
     sample_rate a = sample_rate b \<and>
     sample_width a = sample_width b \<and>
     samples_per_frame a = samples_per_frame b \<and>
     start_frame_num_thresh a = start_frame_num_thresh b \<and>
     start_frame_rollback a = start_frame_rollback b \<and>
     end_frame_num_thresh a = end_frame_num_thresh b \<and>
     output_idle_frame a = output_idle_frame b \<and>
     unit_sample_rate (vad_unit a) = unit_sample_rate (vad_unit b) \<and>
     unit_sample_width (vad_unit a) = unit_sample_width (vad_unit b) \<and>
     unit_samples_per_frame (vad_unit a) = unit_samples_per_frame (vad_unit b)"

text \<open>
  Two engines that agree on every attribute except the VAD unit itself (the detector and
  its state) and \<open>vad_unit_count\<close>, which nothing reads.
\<close>

definition same_runtime :: "'u StreamingVAD \<Rightarrow> 'v StreamingVAD \<Rightarrow> bool" where
  "same_runtime a b \<longleftrightarrow>
     sample_rate a = sample_rate b \<and>
     sample_width a = sample_width b \<and>
     samples_per_frame a = samples_per_frame b \<and>
     start_frame_num_thresh a = start_frame_num_thresh b \<and>
     start_frame_rollback a = start_frame_rollback b \<and>
     end_frame_num_thresh a = end_frame_num_thresh b \<and>
     output_idle_frame a = output_idle_frame b \<and>
     actual_frame_size_in_bytes a = actual_frame_size_in_bytes b \<and>
     vad_unit_frame_ratio a = vad_unit_frame_ratio b \<and>
     vad_unit_frame_buffer a = vad_unit_frame_buffer b \<and>
     prev_vad_unit_result a = prev_vad_unit_result b \<and>
     vad_unit_result_count a = vad_unit_result_count b \<and>
     vad_state a = vad_state b \<and>
     vad_result_buffer a = vad_result_buffer b"

section \<open>Concrete engines\<close>

text \<open>
  A stand-in for the detector inside a VAD unit: it reports speech exactly when the
  window holds a non-zero byte, and keeps no state. The unit has the sample rate and
  width of both units of the repository; its frame size is the argument (160 as
  \<^verbatim>\<open>VADUnitWebRTC\<close> by default, 640 as \<^verbatim>\<open>VADUnitSilero\<close>).
\<close>

definition marker_unit :: "int \<Rightarrow> unit VADUnit" where
  "marker_unit spf = \<lparr>
     unit_sample_rate = 16000,
     unit_sample_width = 2,
     unit_samples_per_frame = spf,
     unit_model = (\<lambda>s d. (\<exists>b \<in> set d. b \<noteq> 0, s)),
     unit_state = () \<rparr>"

text \<open>Frames of 160 samples of 2 bytes: one that the stand-in hears, one it does not.\<close>

definition speech_frame :: bytes where
  "speech_frame = replicate 320 1"

definition silence_frame :: bytes where
  "silence_frame = replicate 320 0"

text \<open>
  \<^verbatim>\<open>StreamingVAD(...)\<close> on the stand-in unit, where the constructor accepts the
  arguments; \<open>default_engine\<close> has the default arguments and a unit whose frame is the
  engine's frame (ratio 1), \<open>silero_engine\<close> a unit whose frame is four engine frames.
\<close>

definition engine_of ::
  "int \<Rightarrow> int \<Rightarrow> int \<Rightarrow> int \<Rightarrow> unit StreamingVAD" where
  "engine_of start_thresh rollback end_thresh unit_spf =
     projr (StreamingVAD_init 16000 2 160 start_thresh rollback end_thresh False
              (marker_unit unit_spf))"

definition default_engine :: "unit StreamingVAD" where
  "default_engine = engine_of 5 10 30 160"

definition silero_engine :: "unit StreamingVAD" where
  "silero_engine = engine_of 5 10 30 640"

section \<open>Basic facts\<close>


lemma replicate_numeral: "replicate (numeral k) x = x # replicate (pred_numeral k) x"
  by (simp add: numeral_eq_Suc)

lemma length_frames [simp]: "length speech_frame = 320" "length silence_frame = 320"
  by (simp_all add: speech_frame_def silence_frame_def)

lemma set_frames [simp]: "set speech_frame = {1}" "set silence_frame = {0}"
  by (simp_all add: speech_frame_def silence_frame_def)

lemmas eval_defs = default_engine_def silero_engine_def engine_of_def StreamingVAD_init_def marker_unit_def
  process_def classify_step_def rollback_step_def
  hysteresis_step_def unit_process_def unit_actual_frame_size_in_bytes_def Let_def

lemma length_concat_frames:
  "\<forall>f \<in> set fs. int (length f) = n \<Longrightarrow> int (length (concat fs)) = int (length fs) * n"
  by (induction fs) (simp_all add: algebra_simps)

lemma engine_ok_init:
  "StreamingVAD_init sr sw spf st rb en oi vu = Inr e \<Longrightarrow> engine_ok e"
  by (auto simp: StreamingVAD_init_def engine_ok_def split: if_splits intro!: pos_imp_zdiv_pos_iff[THEN iffD2])

lemma engine_ok_reset: "engine_ok e \<Longrightarrow> engine_ok (reset e)"
  by (auto simp: engine_ok_def reset_def)

lemma unit_accepts_window:
  assumes "engine_ok e" "valid_frame e f" "classifier_invoked e"
  shows "int (length (concat (vad_unit_frame_buffer e @ [f]))) =
           unit_actual_frame_size_in_bytes (vad_unit e)"
proof -
  have "\<forall>g \<in> set (vad_unit_frame_buffer e @ [f]). int (length g) = actual_frame_size_in_bytes e"
    using assms by (auto simp: engine_ok_def valid_frame_def)
  then have "int (length (concat (vad_unit_frame_buffer e @ [f]))) =
      int (length (vad_unit_frame_buffer e @ [f])) * actual_frame_size_in_bytes e"
    by (rule length_concat_frames)
  also have "int (length (vad_unit_frame_buffer e @ [f])) = vad_unit_frame_ratio e"
    using assms(3) by (simp add: classifier_invoked_def)
  also have "vad_unit_frame_ratio e * actual_frame_size_in_bytes e =
      unit_sample_width (vad_unit e) * (vad_unit_frame_ratio e * samples_per_frame e)"
    using assms(1) by (simp add: engine_ok_def)
  also have "vad_unit_frame_ratio e * samples_per_frame e = unit_samples_per_frame (vad_unit e)"
    using assms(1) by (auto simp: engine_ok_def)
  finally show ?thesis by (simp add: unit_actual_frame_size_in_bytes_def)
qed

lemma classify_step_invoked:
  assumes "engine_ok e" "valid_frame e f" "classifier_invoked e"
  shows "classify_step e f =
    (case unit_model (vad_unit e) (unit_state (vad_unit e)) (concat (vad_unit_frame_buffer e @ [f])) of
       (r, s') \<Rightarrow> (Inr r, e\<lparr>vad_unit := (vad_unit e)\<lparr>unit_state := s'\<rparr>, vad_unit_frame_buffer := [],
                            prev_vad_unit_result := r\<rparr>))"
  using unit_accepts_window[OF assms] assms(3)
  by (simp add: classify_step_def classifier_invoked_def unit_process_def Let_def split: prod.splits)

lemma classify_step_not_invoked:
  assumes "\<not> classifier_invoked e"
  shows "classify_step e f = (Inr (prev_vad_unit_result e), e\<lparr>vad_unit_frame_buffer := vad_unit_frame_buffer e @ [f]\<rparr>)"
  using assms
  by (simp add: classify_step_def classifier_invoked_def Let_def)


lemma classify_step_result:
  assumes "engine_ok e" "valid_frame e f"
  shows "fst (classify_step e f) = Inr (prev_vad_unit_result (snd (classify_step e f)))"
proof (cases "classifier_invoked e")
  case True
  show ?thesis
    by (simp add: classify_step_invoked[OF assms True] split: prod.splits)
next
  case False
  show ?thesis
    by (simp add: classify_step_not_invoked[OF False])
qed

lemma process_valid:
  assumes "engine_ok e" "valid_frame e f"
  shows "process e f =
     (case rollback_step (snd (classify_step e f)) f of
        (overflow_data, e2) \<Rightarrow>
          hysteresis_step e2 (prev_vad_unit_result (snd (classify_step e f))) overflow_data)"
proof -
  obtain r e1 where c: "classify_step e f = (r, e1)"
    by (cases "classify_step e f")
  with classify_step_result[OF assms] have "r = Inr (prev_vad_unit_result e1)"
    by simp
  with c assms(2) show ?thesis
    by (simp add: process_def valid_frame_def)
qed

lemma classify_step_keeps:
  assumes "engine_ok e" "valid_frame e f" "e1 = snd (classify_step e f)"
  shows "engine_ok e1"
    and "vad_state e1 = vad_state e"
    and "vad_result_buffer e1 = vad_result_buffer e"
    and "vad_unit_result_count e1 = vad_unit_result_count e"
    and "start_frame_num_thresh e1 = start_frame_num_thresh e"
    and "end_frame_num_thresh e1 = end_frame_num_thresh e"
    and "start_frame_rollback e1 = start_frame_rollback e"
    and "output_idle_frame e1 = output_idle_frame e"
    and "actual_frame_size_in_bytes e1 = actual_frame_size_in_bytes e"
    and "vad_unit_frame_ratio e1 = vad_unit_frame_ratio e"
proof -
  show "engine_ok e1"
  proof (cases "classifier_invoked e")
    case True
    from assms(1) show ?thesis
      unfolding assms(3) classify_step_invoked[OF assms(1,2) True]
      by (auto simp: engine_ok_def split: prod.splits)
  next
    case False
    from assms(1,2) False show ?thesis
      unfolding assms(3) classify_step_not_invoked[OF False]
      by (auto simp: engine_ok_def valid_frame_def classifier_invoked_def)
  qed
qed (cases "classifier_invoked e";
     simp add: assms(3) classify_step_invoked[OF assms(1,2)] classify_step_not_invoked
       split: prod.splits)+


lemma engine_ok_after_hysteresis:
  assumes "engine_ok e1"
  shows "engine_ok (snd (case rollback_step e1 f of (ov, e2) \<Rightarrow> hysteresis_step e2 r ov))"
  using assms
  by (cases "vad_state e1")
     (auto simp: engine_ok_def rollback_step_def hysteresis_step_def Let_def
           split: list.splits)

lemma engine_ok_process: "engine_ok e \<Longrightarrow> engine_ok (snd (process e f))"
proof (cases "valid_frame e f")
  case False
  assume "engine_ok e"
  with False show ?thesis by (simp add: process_def valid_frame_def)
next
  case True
  assume ok: "engine_ok e"
  have "engine_ok (snd (classify_step e f))"
    by (rule classify_step_keeps(1)[OF ok True refl])
  then show ?thesis
    unfolding process_valid[OF ok True] by (rule engine_ok_after_hysteresis)
qed

lemma reachable_engine_ok: "reachable e \<Longrightarrow> engine_ok e"
  by (induction rule: reachable.induct)
     (auto intro: engine_ok_init engine_ok_process engine_ok_reset)

lemma hysteresis_step_returns:
  "vad_state e = Idle \<or> vad_state e = Continue \<Longrightarrow>
     \<exists>ev. fst (hysteresis_step e r ov) = Inr ev"
  by (auto simp: hysteresis_step_def Let_def)

lemma process_returns:
  assumes "engine_ok e" "valid_frame e f"
  shows "\<exists>ev. fst (process e f) = Inr ev"
proof -
  have "vad_state (snd (classify_step e f)) = Idle \<or> vad_state (snd (classify_step e f)) = Continue"
    using classify_step_keeps(2)[OF assms refl] assms(1) by (simp add: engine_ok_def)
  then have "vad_state (snd (rollback_step (snd (classify_step e f)) f)) = Idle
      \<or> vad_state (snd (rollback_step (snd (classify_step e f)) f)) = Continue"
    by (auto simp: rollback_step_def Let_def split: list.splits)
  then show ?thesis
    unfolding process_valid[OF assms]
    by (auto split: prod.splits intro: hysteresis_step_returns)
qed

lemma process_keeps_config:
  assumes "e' = snd (process e f)"
  shows "actual_frame_size_in_bytes e' = actual_frame_size_in_bytes e"
    and "start_frame_num_thresh e' = start_frame_num_thresh e"
    and "end_frame_num_thresh e' = end_frame_num_thresh e"
    and "start_frame_rollback e' = start_frame_rollback e"
    and "output_idle_frame e' = output_idle_frame e"
    and "vad_unit_frame_ratio e' = vad_unit_frame_ratio e"
    and "sample_rate e' = sample_rate e"
    and "sample_width e' = sample_width e"
    and "samples_per_frame e' = samples_per_frame e"
  unfolding assms
  by (auto simp: process_def classify_step_def rollback_step_def hysteresis_step_def
        unit_process_def Let_def split: list.splits VADState.splits prod.splits sum.splits)

lemma process_frames_returns:
  assumes "engine_ok e" "\<forall>f \<in> set fs. valid_frame e f"
  shows "\<exists>evs. fst (process_frames e fs) = Inr evs \<and> length evs = length fs"
  using assms
proof (induction fs arbitrary: e)
  case Nil
  then show ?case by simp
next
  case (Cons f fs)
  from Cons.prems obtain ev where ev: "fst (process e f) = Inr ev"
    using process_returns[of e f] by auto
  define e' where "e' = snd (process e f)"
  have ok': "engine_ok e'"
    unfolding e'_def using Cons.prems(1) by (rule engine_ok_process)
  have "\<forall>g \<in> set fs. valid_frame e' g"
    using Cons.prems(2) process_keeps_config(1)[OF e'_def] by (simp add: valid_frame_def)
  with Cons.IH[OF ok'] obtain evs where
    evs: "fst (process_frames e' fs) = Inr evs" "length evs = length fs"
    by blast
  have p: "process e f = (Inr ev, e')"
    using ev e'_def by (simp add: prod_eq_iff)
  have q: "process_frames e' fs = (Inr evs, snd (process_frames e' fs))"
    using evs(1) by (simp add: prod_eq_iff)
  show ?case
    by (simp add: p) (subst q, simp add: evs(2))
qed


lemma reachable_process_frames: "reachable e \<Longrightarrow> reachable (snd (process_frames e fs))"
proof (induction fs arbitrary: e)
  case Nil
  then show ?case by simp
next
  case (Cons f fs)
  have r: "reachable (snd (process e f))"
    using Cons.prems by (rule reachable_process)
  from r Cons.IH[OF r] show ?case
    by (cases "process e f") (auto split: sum.splits prod.splits)
qed

lemma default_engine_init:
  "StreamingVAD_init 16000 2 160 5 10 30 False (marker_unit 160) = Inr default_engine"
  by (simp add: default_engine_def engine_of_def StreamingVAD_init_def marker_unit_def)

lemma reachable_default_engine: "reachable default_engine"
  using default_engine_init by (rule reachable_init)

lemma default_engine_frame_size [simp]: "actual_frame_size_in_bytes default_engine = 320"
  by (simp add: default_engine_def engine_of_def StreamingVAD_init_def marker_unit_def)

lemma engine_of_init:
  "StreamingVAD_init 16000 2 160 st rb en False (marker_unit 160) = Inr (engine_of st rb en 160)"
  "StreamingVAD_init 16000 2 160 st rb en False (marker_unit 640) = Inr (engine_of st rb en 640)"
  by (simp_all add: engine_of_def StreamingVAD_init_def marker_unit_def)

lemma continue_step:
  assumes "engine_ok e" "valid_frame e f" "vad_state e = Continue" "1 \<le> start_frame_rollback e"
  shows "\<exists>ev. fst (process e f) = Inr ev \<and> data ev = [f] \<and> (state ev = Continue \<or> state ev = Ended)"
proof -
  note k = classify_step_keeps[OF assms(1,2) refl]
  have b: "vad_result_buffer e = []"
    using assms(1,3) by (simp add: engine_ok_def)
  show ?thesis
    unfolding process_valid[OF assms(1,2)]
    using assms(3,4) b k(2,3,7)
    by (simp add: rollback_step_def hysteresis_step_def Let_def)
qed

lemma idle_step:
  assumes "engine_ok e" "valid_frame e f" "vad_state e = Idle"
    and "e' = snd (process e f)"
  shows "prev_vad_unit_result e' \<Longrightarrow> vad_unit_result_count e' = vad_unit_result_count e + 1"
    and "\<not> prev_vad_unit_result e' \<Longrightarrow> vad_unit_result_count e' = 0"
    and "vad_unit_result_count e' < start_frame_num_thresh e \<Longrightarrow>
           (\<exists>ev. fst (process e f) = Inr ev \<and> state ev = Idle) \<and> vad_state e' = Idle"
    and "start_frame_num_thresh e \<le> vad_unit_result_count e' \<Longrightarrow>
           (\<exists>ev. fst (process e f) = Inr ev \<and> state ev = Started) \<and> vad_state e' = Continue"
proof -
  note k = classify_step_keeps[OF assms(1,2) refl]
  have p: "process e f =
     (case rollback_step (snd (classify_step e f)) f of
        (overflow_data, e2) \<Rightarrow>
          hysteresis_step e2 (prev_vad_unit_result (snd (classify_step e f))) overflow_data)"
    by (rule process_valid[OF assms(1,2)])
  show "prev_vad_unit_result e' \<Longrightarrow> vad_unit_result_count e' = vad_unit_result_count e + 1"
    unfolding assms(4) p using assms(3) k(2,4,5)
    by (auto simp: rollback_step_def hysteresis_step_def Let_def split: list.splits if_splits)
  show "\<not> prev_vad_unit_result e' \<Longrightarrow> vad_unit_result_count e' = 0"
    unfolding assms(4) p using assms(3) k(2,4,5)
    by (auto simp: rollback_step_def hysteresis_step_def Let_def split: list.splits if_splits)
  show "vad_unit_result_count e' < start_frame_num_thresh e \<Longrightarrow>
           (\<exists>ev. fst (process e f) = Inr ev \<and> state ev = Idle) \<and> vad_state e' = Idle"
    unfolding assms(4) p using assms(3) k(2,4,5)
    by (auto simp: rollback_step_def hysteresis_step_def Let_def split: list.splits if_splits)
  show "start_frame_num_thresh e \<le> vad_unit_result_count e' \<Longrightarrow>
           (\<exists>ev. fst (process e f) = Inr ev \<and> state ev = Started) \<and> vad_state e' = Continue"
    unfolding assms(4) p using assms(3) k(2,4,5)
    by (auto simp: rollback_step_def hysteresis_step_def Let_def split: list.splits if_splits)
qed

lemma process_keeps_classify_fields:
  assumes "engine_ok e" "valid_frame e f"
  shows "prev_vad_unit_result (snd (process e f)) = prev_vad_unit_result (snd (classify_step e f))"
    and "vad_unit_frame_buffer (snd (process e f)) = vad_unit_frame_buffer (snd (classify_step e f))"
    and "vad_unit (snd (process e f)) = vad_unit (snd (classify_step e f))"
  unfolding process_valid[OF assms]
  by (auto simp: rollback_step_def hysteresis_step_def Let_def split: list.splits VADState.splits)

lemma process_not_invoked:
  assumes "engine_ok e" "valid_frame e f" "\<not> classifier_invoked e"
  shows "prev_vad_unit_result (snd (process e f)) = prev_vad_unit_result e"
    and "vad_unit_frame_buffer (snd (process e f)) = vad_unit_frame_buffer e @ [f]"
    and "vad_unit (snd (process e f)) = vad_unit e"
  unfolding process_keeps_classify_fields[OF assms(1,2)] classify_step_not_invoked[OF assms(3)]
  by simp_all

lemma process_frames_Cons_Inr:
  assumes "fst (process_frames e (f # fs)) = Inr evs"
  shows "\<exists>ev evs'. fst (process e f) = Inr ev \<and>
           fst (process_frames (snd (process e f)) fs) = Inr evs' \<and> evs = ev # evs'"
  using assms by (auto split: prod.splits sum.splits)

lemma process_frames_length:
  "fst (process_frames e fs) = Inr evs \<Longrightarrow> length evs = length fs"
proof (induction fs arbitrary: e evs)
  case Nil
  then show ?case by simp
next
  case (Cons f fs)
  from process_frames_Cons_Inr[OF Cons.prems] obtain ev evs' where
    "fst (process_frames (snd (process e f)) fs) = Inr evs'" "evs = ev # evs'"
    by blast
  with Cons.IH show ?case by simp
qed

lemma quiet_prefix:
  assumes "engine_ok e" "vad_state e = Idle" "vad_unit_result_count e = 0"
    and "\<not> prev_vad_unit_result e" "1 \<le> start_frame_num_thresh e"
    and "\<forall>f \<in> set fs. valid_frame e f"
    and "int (length (vad_unit_frame_buffer e)) + int (length fs) < vad_unit_frame_ratio e"
  shows "\<exists>evs. fst (process_frames e fs) = Inr evs \<and> (\<forall>ev \<in> set evs. state ev = Idle) \<and>
           vad_state (snd (process_frames e fs)) = Idle \<and>
           vad_unit_result_count (snd (process_frames e fs)) = 0 \<and>
           \<not> prev_vad_unit_result (snd (process_frames e fs)) \<and>
           window_results e fs = []"
  using assms
proof (induction fs arbitrary: e)
  case Nil
  then show ?case by simp
next
  case (Cons f fs)
  define e' where "e' = snd (process e f)"
  have v: "valid_frame e f"
    using Cons.prems(6) by simp
  have ni: "\<not> classifier_invoked e"
    using Cons.prems(7) by (simp add: classifier_invoked_def)
  note n = process_not_invoked[OF Cons.prems(1) v ni, folded e'_def]
  have p': "\<not> prev_vad_unit_result e'"
    using n(1) Cons.prems(4) by simp
  have c': "vad_unit_result_count e' = 0"
    using idle_step(2)[OF Cons.prems(1) v Cons.prems(2) e'_def] p' by simp
  then have "vad_unit_result_count e' < start_frame_num_thresh e"
    using Cons.prems(5) by simp
  from idle_step(3)[OF Cons.prems(1) v Cons.prems(2) e'_def this]
  obtain ev where ev: "fst (process e f) = Inr ev" "state ev = Idle" and s': "vad_state e' = Idle"
    by blast
  have ok': "engine_ok e'"
    unfolding e'_def using Cons.prems(1) by (rule engine_ok_process)
  note cfg = process_keeps_config[OF e'_def]
  have v': "\<forall>g \<in> set fs. valid_frame e' g"
    using Cons.prems(6) cfg(1) by (simp add: valid_frame_def)
  have l': "int (length (vad_unit_frame_buffer e')) + int (length fs) < vad_unit_frame_ratio e'"
    using Cons.prems(7) n(2) cfg(6) by simp
  have t': "1 \<le> start_frame_num_thresh e'"
    using Cons.prems(5) cfg(2) by simp
  from Cons.IH[OF ok' s' c' p' t' v' l'] obtain evs where
    evs: "fst (process_frames e' fs) = Inr evs" "\<forall>ev \<in> set evs. state ev = Idle"
      "vad_state (snd (process_frames e' fs)) = Idle"
      "vad_unit_result_count (snd (process_frames e' fs)) = 0"
      "\<not> prev_vad_unit_result (snd (process_frames e' fs))"
      "window_results e' fs = []"
    by blast
  have p: "process e f = (Inr ev, e')"
    using ev(1) e'_def by (simp add: prod_eq_iff)
  have q: "process_frames e' fs = (Inr evs, snd (process_frames e' fs))"
    using evs(1) by (simp add: prod_eq_iff)
  have "fst (process_frames e (f # fs)) = Inr (ev # evs)"
    by (simp add: p) (subst q, simp)
  moreover have "snd (process_frames e (f # fs)) = snd (process_frames e' fs)"
    by (simp add: p) (subst q, simp)
  moreover have "window_results e (f # fs) = []"
    using ni evs(6) by (simp add: p)
  ultimately show ?case
    using ev(2) evs(2-5) by simp
qed

lemma fresh_engine:
  assumes "StreamingVAD_init sr sw spf st rb en oi vu = Inr e0 \<or> (reachable e \<and> e0 = reset e)"
  shows "engine_ok e0" and "vad_state e0 = Idle" and "vad_unit_result_count e0 = 0"
    and "\<not> prev_vad_unit_result e0" and "vad_unit_frame_buffer e0 = []"
    and "vad_result_buffer e0 = []"
proof -
  show "engine_ok e0"
    using assms by (auto intro: engine_ok_init engine_ok_reset reachable_engine_ok)
qed (use assms in \<open>auto simp: StreamingVAD_init_def reset_def split: if_splits\<close>)

lemma rollback_step_length:
  assumes "0 \<le> start_frame_rollback e"
    and "int (length (vad_result_buffer e)) \<le> start_frame_rollback e"
  shows "int (length (vad_result_buffer (snd (rollback_step e f)))) =
           min (start_frame_rollback e) (int (length (vad_result_buffer e)) + 1)"
proof -
  obtain x rest where c: "vad_result_buffer e @ [f] = x # rest"
    by (cases "vad_result_buffer e") auto
  from arg_cong[OF c, of length] have l: "length rest = length (vad_result_buffer e)"
    by simp
  have n: "int (length (vad_result_buffer e @ [f])) = int (length (vad_result_buffer e)) + 1"
    by simp
  show ?thesis
    using assms l unfolding rollback_step_def Let_def n c
    by (simp add: min_def)
qed

lemma idle_step_buffer:
  assumes "engine_ok e" "valid_frame e f" "vad_state e = Idle"
    and "0 \<le> start_frame_rollback e"
    and "int (length (vad_result_buffer e)) \<le> start_frame_rollback e"
    and "fst (process e f) = Inr ev"
  shows "state ev = Idle \<Longrightarrow>
           vad_state (snd (process e f)) = Idle \<and>
           int (length (vad_result_buffer (snd (process e f)))) =
             min (start_frame_rollback e) (int (length (vad_result_buffer e)) + 1)"
    and "state ev = Started \<Longrightarrow>
           int (length (data ev)) =
             min (start_frame_rollback e) (int (length (vad_result_buffer e)) + 1)"
proof -
  define e1 where "e1 = snd (classify_step e f)"
  note k = classify_step_keeps[OF assms(1,2) e1_def]
  have rl: "int (length (vad_result_buffer (snd (rollback_step e1 f)))) =
           min (start_frame_rollback e) (int (length (vad_result_buffer e)) + 1)"
    using rollback_step_length[of e1 f] assms(4,5) k(3,7) by simp
  have rs: "vad_state (snd (rollback_step e1 f)) = Idle"
    using assms(3) k(2) by (simp add: rollback_step_def Let_def split: list.splits)
  obtain ov e2 where r: "rollback_step e1 f = (ov, e2)"
    by (cases "rollback_step e1 f")
  have p: "process e f = hysteresis_step e2 (prev_vad_unit_result e1) ov"
    unfolding process_valid[OF assms(1,2)] using r by (simp add: e1_def)
  show "state ev = Idle \<Longrightarrow>
           vad_state (snd (process e f)) = Idle \<and>
           int (length (vad_result_buffer (snd (process e f)))) =
             min (start_frame_rollback e) (int (length (vad_result_buffer e)) + 1)"
    using assms(6) rl rs unfolding p r
    by (auto simp: hysteresis_step_def Let_def split: if_splits)
  show "state ev = Started \<Longrightarrow>
           int (length (data ev)) =
             min (start_frame_rollback e) (int (length (vad_result_buffer e)) + 1)"
    using assms(6) rl rs unfolding p r
    by (auto simp: hysteresis_step_def Let_def split: if_splits)
qed

lemma idle_run_payload:
  assumes "engine_ok e" "vad_state e = Idle"
    and "0 \<le> start_frame_rollback e"
    and "int (length (vad_result_buffer e)) \<le> start_frame_rollback e"
    and "\<forall>f \<in> set fs. valid_frame e f"
    and "fst (process_frames e fs) = Inr (idles @ [ev])"
    and "\<forall>x \<in> set idles. state x = Idle"
    and "state ev = Started"
  shows "int (length (data ev)) =
           min (start_frame_rollback e) (int (length (vad_result_buffer e)) + int (length fs))"
  using assms
proof (induction fs arbitrary: e idles)
  case Nil
  then show ?case by simp
next
  case (Cons f fs)
  define e' where "e' = snd (process e f)"
  from process_frames_Cons_Inr[OF Cons.prems(6)] obtain ev1 evs' where
    s: "fst (process e f) = Inr ev1" "fst (process_frames e' fs) = Inr evs'"
       "idles @ [ev] = ev1 # evs'"
    unfolding e'_def by blast
  have v: "valid_frame e f"
    using Cons.prems(5) by simp
  note b = idle_step_buffer[OF Cons.prems(1) v Cons.prems(2,3,4) s(1)]
  show ?case
  proof (cases idles)
    case Nil
    with s(3) have "ev1 = ev" "evs' = []"
      by simp_all
    with process_frames_length[OF s(2)] have "fs = []"
      by simp
    with b(2) \<open>ev1 = ev\<close> Cons.prems(8) show ?thesis
      by simp
  next
    case (Cons x idles')
    with s(3) have x: "x = ev1" "evs' = idles' @ [ev]"
      by simp_all
    have "state ev1 = Idle"
      using Cons.prems(7) Cons x(1) by simp
    from b(1)[OF this] have
      s': "vad_state e' = Idle" and
      l': "int (length (vad_result_buffer e')) =
             min (start_frame_rollback e) (int (length (vad_result_buffer e)) + 1)"
      unfolding e'_def by simp_all
    have ok': "engine_ok e'"
      unfolding e'_def using Cons.prems(1) by (rule engine_ok_process)
    note cfg = process_keeps_config[OF e'_def]
    have rb': "0 \<le> start_frame_rollback e'"
      using Cons.prems(3) cfg(4) by simp
    have le': "int (length (vad_result_buffer e')) \<le> start_frame_rollback e'"
      using l' cfg(4) by simp
    have v': "\<forall>g \<in> set fs. valid_frame e' g"
      using Cons.prems(5) cfg(1) by (simp add: valid_frame_def)
    have i': "\<forall>y \<in> set idles'. state y = Idle"
      using Cons.prems(7) Cons by simp
    have f': "fst (process_frames e' fs) = Inr (idles' @ [ev])"
      using s(2) x(2) by simp
    from Cons.IH[OF ok' s' rb' le' v' f' i' Cons.prems(8)]
    show ?thesis
      using l' cfg(4) Cons.prems(3,4) by (simp add: min_def split: if_splits)
  qed
qed

lemma same_runtime_invoked:
  "same_runtime a b \<Longrightarrow> classifier_invoked a \<longleftrightarrow> classifier_invoked b"
  by (simp add: same_runtime_def classifier_invoked_def)

lemma same_runtime_classify:
  assumes "same_runtime a b" "engine_ok a" "engine_ok b" "valid_frame a f"
    and "prev_vad_unit_result (snd (classify_step a f)) = prev_vad_unit_result (snd (classify_step b f))"
  shows "same_runtime (snd (classify_step a f)) (snd (classify_step b f))"
proof (cases "classifier_invoked a")
  case True
  then have ib: "classifier_invoked b"
    using same_runtime_invoked[OF assms(1)] by simp
  have vb: "valid_frame b f"
    using assms(1,4) by (simp add: same_runtime_def valid_frame_def)
  show ?thesis
    using assms(1,5)
    unfolding classify_step_invoked[OF assms(2,4) True] classify_step_invoked[OF assms(3) vb ib]
    by (simp add: same_runtime_def split: prod.splits)
next
  case False
  then have ib: "\<not> classifier_invoked b"
    using same_runtime_invoked[OF assms(1)] by simp
  show ?thesis
    using assms(1)
    unfolding classify_step_not_invoked[OF False] classify_step_not_invoked[OF ib]
    by (simp add: same_runtime_def)
qed

lemma same_runtime_rollback:
  assumes "same_runtime a b"
  shows "fst (rollback_step a f) = fst (rollback_step b f)"
    and "same_runtime (snd (rollback_step a f)) (snd (rollback_step b f))"
  using assms
  by (auto simp: same_runtime_def rollback_step_def Let_def split: list.splits)

lemma same_runtime_hysteresis:
  assumes "same_runtime a b"
  shows "fst (hysteresis_step a r ov) = fst (hysteresis_step b r ov)"
    and "same_runtime (snd (hysteresis_step a r ov)) (snd (hysteresis_step b r ov))"
  using assms
  by (auto simp: same_runtime_def hysteresis_step_def Let_def split: VADState.splits option.splits)

lemma same_runtime_process:
  assumes "same_runtime a b" "engine_ok a" "engine_ok b" "valid_frame a f"
    and "prev_vad_unit_result (snd (process a f)) = prev_vad_unit_result (snd (process b f))"
  shows "fst (process a f) = fst (process b f)"
    and "same_runtime (snd (process a f)) (snd (process b f))"
proof -
  have vb: "valid_frame b f"
    using assms(1,4) by (simp add: same_runtime_def valid_frame_def)
  define a1 where "a1 = snd (classify_step a f)"
  define b1 where "b1 = snd (classify_step b f)"
  have pe: "prev_vad_unit_result a1 = prev_vad_unit_result b1"
    using assms(5)
    unfolding process_keeps_classify_fields(1)[OF assms(2,4)]
      process_keeps_classify_fields(1)[OF assms(3) vb] a1_def b1_def .
  have s1: "same_runtime a1 b1"
    unfolding a1_def b1_def
    using assms(1,2,3,4) pe[unfolded a1_def b1_def] by (rule same_runtime_classify)
  obtain ova a2 where ra: "rollback_step a1 f = (ova, a2)"
    by (cases "rollback_step a1 f")
  obtain ovb b2 where rb: "rollback_step b1 f = (ovb, b2)"
    by (cases "rollback_step b1 f")
  from same_runtime_rollback[OF s1, of f] ra rb have s2: "ova = ovb" "same_runtime a2 b2"
    by simp_all
  have pa: "process a f = hysteresis_step a2 (prev_vad_unit_result a1) ova"
    unfolding process_valid[OF assms(2,4)] using ra by (simp add: a1_def)
  have pb: "process b f = hysteresis_step b2 (prev_vad_unit_result b1) ovb"
    unfolding process_valid[OF assms(3) vb] using rb by (simp add: b1_def)
  show "fst (process a f) = fst (process b f)"
    unfolding pa pb pe s2(1) using s2(2) by (rule same_runtime_hysteresis)
  show "same_runtime (snd (process a f)) (snd (process b f))"
    unfolding pa pb pe s2(1) using s2(2) by (rule same_runtime_hysteresis)
qed

lemma same_runtime_run:
  assumes "same_runtime a b" "engine_ok a" "engine_ok b"
    and "\<forall>f \<in> set fs. valid_frame a f"
    and "window_results a fs = window_results b fs"
  shows "fst (process_frames a fs) = fst (process_frames b fs)"
  using assms
proof (induction fs arbitrary: a b)
  case Nil
  then show ?case by simp
next
  case (Cons f fs)
  define a' where "a' = snd (process a f)"
  define b' where "b' = snd (process b f)"
  have va: "valid_frame a f"
    using Cons.prems(4) by simp
  have vb: "valid_frame b f"
    using Cons.prems(1) va by (simp add: same_runtime_def valid_frame_def)
  from process_returns[OF Cons.prems(2) va] obtain eva where "fst (process a f) = Inr eva"
    by blast
  then have pa: "process a f = (Inr eva, a')"
    by (simp add: a'_def prod_eq_iff)
  from process_returns[OF Cons.prems(3) vb] obtain evb where "fst (process b f) = Inr evb"
    by blast
  then have pb: "process b f = (Inr evb, b')"
    by (simp add: b'_def prod_eq_iff)
  have inv: "classifier_invoked a \<longleftrightarrow> classifier_invoked b"
    using Cons.prems(1) by (rule same_runtime_invoked)
  have w: "prev_vad_unit_result a' = prev_vad_unit_result b' \<and>
           window_results a' fs = window_results b' fs"
  proof (cases "classifier_invoked a")
    case True
    with inv Cons.prems(5) show ?thesis
      by (simp add: pa pb)
  next
    case False
    with inv have nb: "\<not> classifier_invoked b"
      by simp
    have "prev_vad_unit_result a' = prev_vad_unit_result b'"
      unfolding a'_def b'_def
        process_not_invoked(1)[OF Cons.prems(2) va False]
        process_not_invoked(1)[OF Cons.prems(3) vb nb]
      using Cons.prems(1) by (simp add: same_runtime_def)
    with False nb Cons.prems(5) show ?thesis
      by (simp add: pa pb)
  qed
  note st = same_runtime_process[OF Cons.prems(1,2,3) va w[THEN conjunct1, unfolded a'_def b'_def],
      folded a'_def b'_def]
  have ev: "eva = evb"
    using st(1) pa pb by simp
  have oka: "engine_ok a'"
    unfolding a'_def using Cons.prems(2) by (rule engine_ok_process)
  have okb: "engine_ok b'"
    unfolding b'_def using Cons.prems(3) by (rule engine_ok_process)
  have v': "\<forall>g \<in> set fs. valid_frame a' g"
    using Cons.prems(4) process_keeps_config(1)[OF a'_def] by (simp add: valid_frame_def)
  from Cons.IH[OF st(2) oka okb v' w[THEN conjunct2]]
  have "fst (process_frames a' fs) = fst (process_frames b' fs)" .
  then show ?case
    by (auto simp: pa pb ev split: prod.splits sum.splits)
qed

section \<open>The claims\<close>

text \<open>
  C3. Every sequence of N correctly sized frames fed to \<^verbatim>\<open>process\<close>, one call per
  frame, on an engine that a program can hold, returns N events (no call raises), and
  the state of every event is one of \<open>Idle\<close>, \<open>Started\<close>, \<open>Continue\<close>, \<open>Ended\<close>.
\<close>

theorem one_event_per_frame:
  assumes "reachable e" and "\<forall>f \<in> set frames. valid_frame e f"
  shows "\<exists>evs e'. process_frames e frames = (Inr evs, e') \<and> length evs = length frames \<and>
           (\<forall>ev \<in> set evs. state ev \<in> {Idle, Started, Continue, Ended})"
proof -
  from process_frames_returns[OF reachable_engine_ok[OF assms(1)] assms(2)]
  obtain evs where evs: "fst (process_frames e frames) = Inr evs" "length evs = length frames"
    by blast
  have tags: "\<forall>ev \<in> set evs. state ev \<in> {Idle, Started, Continue, Ended}"
  proof
    fix ev :: VADData
    show "state ev \<in> {Idle, Started, Continue, Ended}"
      by (cases "state ev") simp_all
  qed
  have "process_frames e frames = (Inr evs, snd (process_frames e frames))"
    using evs(1) by (simp add: prod_eq_iff)
  with evs(2) tags show ?thesis by blast
qed

theorem one_event_per_frame_witness:
  "reachable default_engine \<and>
   valid_frame default_engine silence_frame \<and> valid_frame default_engine speech_frame \<and>
   (\<exists>evs e'. process_frames default_engine [silence_frame, speech_frame, speech_frame]
                = (Inr evs, e') \<and>
              length evs = length [silence_frame, speech_frame, speech_frame] \<and>
              (\<forall>ev \<in> set evs. state ev \<in> {Idle, Started, Continue, Ended}))"
proof -
  have v: "\<forall>f \<in> set [silence_frame, speech_frame, speech_frame]. valid_frame default_engine f"
    by (simp add: valid_frame_def)
  from one_event_per_frame[OF reachable_default_engine v] reachable_default_engine v
  show ?thesis by simp
qed

text \<open>
  C8. On an engine that a program can hold, \<^verbatim>\<open>process\<close> raises the frame-size
  assertion exactly when the byte length of the input differs from
  \<open>sample_width * samples_per_frame\<close>; the object is then as it was before the call;
  and on a frame of the right size the call raises nothing at all.
\<close>

theorem invalid_frame_size_iff:
  assumes "reachable e"
  shows "(fst (process e f) = Inl InvalidFrameSize \<longleftrightarrow>
            int (length f) \<noteq> sample_width e * samples_per_frame e) \<and>
         (int (length f) \<noteq> sample_width e * samples_per_frame e \<longrightarrow> snd (process e f) = e) \<and>
         (int (length f) = sample_width e * samples_per_frame e \<longrightarrow>
            (\<exists>ev. fst (process e f) = Inr ev))"
proof -
  have ok: "engine_ok e"
    using assms by (rule reachable_engine_ok)
  then have size: "actual_frame_size_in_bytes e = sample_width e * samples_per_frame e"
    by (simp add: engine_ok_def)
  have bad: "process e f = (Inl InvalidFrameSize, e)"
    if "int (length f) \<noteq> sample_width e * samples_per_frame e"
    using that size by (simp add: process_def)
  have good: "\<exists>ev. fst (process e f) = Inr ev"
    if "int (length f) = sample_width e * samples_per_frame e"
    using that size process_returns[OF ok, of f] by (simp add: valid_frame_def)
  from bad good show ?thesis by auto
qed

theorem invalid_frame_size_iff_witness:
  "reachable default_engine \<and>
   fst (process default_engine []) = Inl InvalidFrameSize \<and>
   snd (process default_engine []) = default_engine \<and>
   (\<exists>ev. fst (process default_engine speech_frame) = Inr ev)"
proof -
  have w: "sample_width default_engine * samples_per_frame default_engine = 320"
    by (simp add: default_engine_def engine_of_def StreamingVAD_init_def marker_unit_def)
  from invalid_frame_size_iff[OF reachable_default_engine, of "[]"]
       invalid_frame_size_iff[OF reachable_default_engine, of speech_frame]
       reachable_default_engine
  show ?thesis by (simp add: w)
qed

text \<open>
  C1. The claim: the transition that emits \<open>Started\<close> or \<open>Ended\<close> resets the counter of
  consecutive verdicts to 0. The code at lines 161 and 175 assigns 0 to
  \<open>vad_unit_count\<close>, an attribute that nothing reads, and leaves
  \<open>vad_unit_result_count\<close> as it is. On the engine with the default arguments and a
  unit of the engine's frame size: five frames of speech end with \<open>Started\<close> and the
  counter at 5; one more frame of speech (which sets the counter to 0) and thirty
  frames of silence end with \<open>Ended\<close> and the counter at 30.
\<close>

theorem counter_kept_on_transition:
  "map_sum id (map state) (fst (process_frames default_engine (replicate 5 speech_frame)))
     = Inr [Idle, Idle, Idle, Idle, Started] \<and>
   vad_state (snd (process_frames default_engine (replicate 5 speech_frame))) = Continue \<and>
   vad_unit_result_count (snd (process_frames default_engine (replicate 5 speech_frame))) = 5 \<and>
   vad_unit_count (snd (process_frames default_engine (replicate 5 speech_frame))) = Some 0 \<and>
   map_sum id (map state)
     (fst (process_frames default_engine
        (replicate 6 speech_frame @ replicate 30 silence_frame)))
     = Inr (replicate 4 Idle @ [Started] @ replicate 30 Continue @ [Ended]) \<and>
   vad_state (snd (process_frames default_engine
        (replicate 6 speech_frame @ replicate 30 silence_frame))) = Idle \<and>
   vad_unit_result_count (snd (process_frames default_engine
        (replicate 6 speech_frame @ replicate 30 silence_frame))) = 30"
  by (simp add: eval_defs replicate_numeral)

text \<open>
  C2. The claim: after \<open>Started\<close>, 29 frames of silence give 29 \<open>Continue\<close> events and
  the 30th gives \<open>Ended\<close>. The code, on the engine with the default arguments and a
  unit of the engine's frame size: \<open>Started\<close> leaves the counter at 5, so the 25th
  frame of silence after \<open>Started\<close> gives \<open>Ended\<close>, and frames 26 to 30 are processed
  in the resting state \<open>Idle\<close>.
\<close>

theorem ended_after_25_silent_frames:
  "map_sum id (map state)
     (fst (process_frames default_engine
        (replicate 5 speech_frame @ replicate 30 silence_frame)))
     = Inr (replicate 4 Idle @ [Started] @ replicate 24 Continue @ [Ended] @ replicate 5 Idle)"
  by (simp add: eval_defs replicate_numeral)

text \<open>
  C9. The claim: every event emitted in the resting state \<open>Continue\<close>, tagged
  \<open>Continue\<close> or \<open>Ended\<close>, carries exactly the frame just submitted; the docstring
  of \<^verbatim>\<open>VADData\<close> (lines 32-33) and the comment in \<^verbatim>\<open>demo.py\<close> (line 78) say
  the same. The code, when \<open>start_frame_rollback\<close> is 0: line 148 pops the frame that
  line 147 has just appended, and the \<open>Continue\<close> branch, unlike the \<open>Idle\<close> branch
  (lines 165-166), does not hand the popped frame on. With \<open>start_frame_rollback\<close> = 0
  and the other arguments default, five frames of speech lead to \<open>Continue\<close>, and the
  next frame of speech gives a \<open>Continue\<close> event with an empty payload: the frame is
  lost.
\<close>

theorem continue_payload_empty_without_rollback:
  "StreamingVAD_init 16000 2 160 5 0 30 False (marker_unit 160) = Inr (engine_of 5 0 30 160) \<and>
   vad_state (snd (process_frames (engine_of 5 0 30 160) (replicate 5 speech_frame))) = Continue \<and>
   map_sum id state
     (fst (process (snd (process_frames (engine_of 5 0 30 160) (replicate 5 speech_frame)))
        speech_frame)) = Inr Continue \<and>
   map_sum id data
     (fst (process (snd (process_frames (engine_of 5 0 30 160) (replicate 5 speech_frame)))
        speech_frame)) = Inr []"
  by (simp add: eval_defs replicate_numeral)

text \<open>
  Where \<open>start_frame_rollback\<close> is at least 1 the code does what C9 says: on an
  engine that a program can hold and that rests in \<open>Continue\<close>, \<^verbatim>\<open>process\<close> on a
  frame of the right size returns an event tagged \<open>Continue\<close> or \<open>Ended\<close> whose
  payload is exactly that frame.
\<close>

theorem continue_payload_is_current_frame:
  assumes "reachable e" "valid_frame e f" "vad_state e = Continue" "1 \<le> start_frame_rollback e"
  shows "\<exists>ev. fst (process e f) = Inr ev \<and> data ev = [f] \<and> (state ev = Continue \<or> state ev = Ended)"
  using continue_step[OF reachable_engine_ok[OF assms(1)] assms(2,3,4)] .

theorem continue_payload_is_current_frame_witness:
  "reachable (snd (process_frames default_engine (replicate 5 speech_frame))) \<and>
   valid_frame (snd (process_frames default_engine (replicate 5 speech_frame))) silence_frame \<and>
   vad_state (snd (process_frames default_engine (replicate 5 speech_frame))) = Continue \<and>
   1 \<le> start_frame_rollback (snd (process_frames default_engine (replicate 5 speech_frame))) \<and>
   (\<exists>ev. fst (process (snd (process_frames default_engine (replicate 5 speech_frame))) silence_frame) = Inr ev
      \<and> data ev = [silence_frame] \<and> (state ev = Continue \<or> state ev = Ended))"
proof -
  define e where "e = snd (process_frames default_engine (replicate 5 speech_frame))"
  have r: "reachable e"
    unfolding e_def using reachable_default_engine by (rule reachable_process_frames)
  have v: "valid_frame e silence_frame"
    unfolding e_def by (simp add: valid_frame_def eval_defs replicate_numeral)
  have c: "vad_state e = Continue"
    unfolding e_def by (simp add: eval_defs replicate_numeral)
  have b: "1 \<le> start_frame_rollback e"
    unfolding e_def by (simp add: eval_defs replicate_numeral)
  from continue_payload_is_current_frame[OF r v c b] r v c b
  show ?thesis unfolding e_def by blast
qed

text \<open>
  C5. The claim, that in \<open>Idle\<close> with the counter below \<open>start_frame_num_thresh\<close> and
  after a negative verdict one positive verdict never emits \<open>Started\<close>, fails when
  the threshold is 1: the engine is in \<open>Idle\<close> after a frame of silence, the counter
  is 0 < 1, and one frame of speech emits \<open>Started\<close>.
\<close>

theorem single_positive_starts_at_threshold_one:
  "StreamingVAD_init 16000 2 160 1 10 30 False (marker_unit 160) = Inr (engine_of 1 10 30 160) \<and>
   vad_state (snd (process (engine_of 1 10 30 160) silence_frame)) = Idle \<and>
   \<not> prev_vad_unit_result (snd (process (engine_of 1 10 30 160) silence_frame)) \<and>
   vad_unit_result_count (snd (process (engine_of 1 10 30 160) silence_frame))
     < start_frame_num_thresh (snd (process (engine_of 1 10 30 160) silence_frame)) \<and>
   prev_vad_unit_result
     (snd (process (snd (process (engine_of 1 10 30 160) silence_frame)) speech_frame)) \<and>
   map_sum id state
     (fst (process (snd (process (engine_of 1 10 30 160) silence_frame)) speech_frame))
     = Inr Started \<and>
   vad_state (snd (process (snd (process (engine_of 1 10 30 160) silence_frame)) speech_frame))
     = Continue"
  by (simp add: eval_defs)

text \<open>
  C5, amended. When \<open>start_frame_num_thresh\<close> is at least 2, on an engine that a
  program can hold and that rests in \<open>Idle\<close>: after a call whose verdict is negative
  the engine rests in \<open>Idle\<close> with the counter at 0, and a following call whose
  verdict is positive emits \<open>Idle\<close>, not \<open>Started\<close>, and leaves the engine in
  \<open>Idle\<close> with the counter at 1.
\<close>

theorem single_positive_keeps_idle:
  assumes "reachable e0" and "vad_state e0 = Idle" and "2 \<le> start_frame_num_thresh e0"
    and "valid_frame e0 f0" and "valid_frame e0 f1"
    and "e1 = snd (process e0 f0)" and "\<not> prev_vad_unit_result e1"
    and "e2 = snd (process e1 f1)" and "prev_vad_unit_result e2"
  shows "vad_state e1 = Idle \<and> vad_unit_result_count e1 = 0 \<and>
         (\<exists>ev. fst (process e1 f1) = Inr ev \<and> state ev = Idle) \<and>
         vad_state e2 = Idle \<and> vad_unit_result_count e2 = 1"
proof -
  have ok0: "engine_ok e0"
    using assms(1) by (rule reachable_engine_ok)
  have c1: "vad_unit_result_count e1 = 0"
    using idle_step(2)[OF ok0 assms(4,2,6)] assms(7) by simp
  then have s1: "vad_state e1 = Idle"
    using idle_step(3)[OF ok0 assms(4,2,6)] assms(3) by simp
  have ok1: "engine_ok e1"
    unfolding assms(6) using ok0 by (rule engine_ok_process)
  have v1: "valid_frame e1 f1"
    using assms(5) process_keeps_config(1)[OF assms(6)] by (simp add: valid_frame_def)
  have t1: "start_frame_num_thresh e1 = start_frame_num_thresh e0"
    by (rule process_keeps_config(2)[OF assms(6)])
  have c2: "vad_unit_result_count e2 = 1"
    using idle_step(1)[OF ok1 v1 s1 assms(8)] assms(9) c1 by simp
  then have "(\<exists>ev. fst (process e1 f1) = Inr ev \<and> state ev = Idle) \<and> vad_state e2 = Idle"
    using idle_step(3)[OF ok1 v1 s1 assms(8)] assms(3) t1 by simp
  with c1 s1 c2 show ?thesis by simp
qed

theorem single_positive_keeps_idle_witness:
  "reachable default_engine \<and> vad_state default_engine = Idle \<and>
   2 \<le> start_frame_num_thresh default_engine \<and>
   valid_frame default_engine silence_frame \<and> valid_frame default_engine speech_frame \<and>
   \<not> prev_vad_unit_result (snd (process default_engine silence_frame)) \<and>
   prev_vad_unit_result (snd (process (snd (process default_engine silence_frame)) speech_frame)) \<and>
   vad_state (snd (process default_engine silence_frame)) = Idle \<and>
   vad_unit_result_count (snd (process default_engine silence_frame)) = 0 \<and>
   (\<exists>ev. fst (process (snd (process default_engine silence_frame)) speech_frame) = Inr ev \<and>
      state ev = Idle) \<and>
   vad_state (snd (process (snd (process default_engine silence_frame)) speech_frame)) = Idle \<and>
   vad_unit_result_count (snd (process (snd (process default_engine silence_frame)) speech_frame)) = 1"
proof -
  have a: "vad_state default_engine = Idle" "2 \<le> start_frame_num_thresh default_engine"
    by (simp_all add: eval_defs)
  have v: "valid_frame default_engine silence_frame" "valid_frame default_engine speech_frame"
    by (simp_all add: valid_frame_def)
  have n: "\<not> prev_vad_unit_result (snd (process default_engine silence_frame))"
    by (simp add: eval_defs)
  have p: "prev_vad_unit_result (snd (process (snd (process default_engine silence_frame)) speech_frame))"
    by (simp add: eval_defs)
  from single_positive_keeps_idle[OF reachable_default_engine a v refl n refl p]
    reachable_default_engine a v n p
  show ?thesis by simp
qed


text \<open>
  C10. The claim, that each of the first \<open>vad_unit_frame_ratio - 1\<close> calls on a fresh
  engine emits \<open>Idle\<close>, fails when \<open>start_frame_num_thresh\<close> is 0 (or less): the
  counter 0 then reaches the threshold at once. With threshold 0 and a unit of four
  engine frames, the first call emits \<open>Started\<close>.
\<close>

theorem first_call_starts_at_threshold_zero:
  "StreamingVAD_init 16000 2 160 0 10 30 False (marker_unit 640) = Inr (engine_of 0 10 30 640) \<and>
   vad_unit_frame_ratio (engine_of 0 10 30 640) = 4 \<and>
   map_sum id state (fst (process (engine_of 0 10 30 640) silence_frame)) = Inr Started"
  by (simp add: eval_defs)

text \<open>
  C10, amended. When \<open>start_frame_num_thresh\<close> is at least 1: on an engine just built
  by \<^verbatim>\<open>__init__\<close> or just \<^verbatim>\<open>reset\<close>, any run of fewer than
  \<open>vad_unit_frame_ratio\<close> frames of the right size returns one event per frame, each
  tagged \<open>Idle\<close>, never invokes the VAD unit, and leaves the verdict in use at
  \<open>False\<close> and the counter at 0. (Applied to every prefix of the first
  \<open>vad_unit_frame_ratio - 1\<close> calls, this is the claim for each of them.)
\<close>

theorem first_calls_are_idle:
  assumes "StreamingVAD_init sr sw spf st rb en oi vu = Inr e0 \<or> (reachable e \<and> e0 = reset e)"
    and "1 \<le> start_frame_num_thresh e0"
    and "\<forall>f \<in> set frames. valid_frame e0 f"
    and "int (length frames) < vad_unit_frame_ratio e0"
  shows "\<exists>evs. fst (process_frames e0 frames) = Inr evs \<and> length evs = length frames \<and>
           (\<forall>ev \<in> set evs. state ev = Idle) \<and>
           vad_unit_result_count (snd (process_frames e0 frames)) = 0 \<and>
           \<not> prev_vad_unit_result (snd (process_frames e0 frames)) \<and>
           window_results e0 frames = []"
proof -
  note f = fresh_engine[OF assms(1)]
  have "int (length (vad_unit_frame_buffer e0)) + int (length frames) < vad_unit_frame_ratio e0"
    using assms(4) f(5) by simp
  from quiet_prefix[OF f(1,2,3,4) assms(2,3) this] obtain evs where
    evs: "fst (process_frames e0 frames) = Inr evs" "\<forall>ev \<in> set evs. state ev = Idle"
      "vad_unit_result_count (snd (process_frames e0 frames)) = 0"
      "\<not> prev_vad_unit_result (snd (process_frames e0 frames))"
      "window_results e0 frames = []"
    by blast
  from process_frames_length[OF evs(1)] evs show ?thesis by blast
qed

theorem first_calls_are_idle_witness:
  "StreamingVAD_init 16000 2 160 5 10 30 False (marker_unit 640) = Inr silero_engine \<and>
   1 \<le> start_frame_num_thresh silero_engine \<and>
   valid_frame silero_engine speech_frame \<and>
   int (length [speech_frame, speech_frame, speech_frame]) < vad_unit_frame_ratio silero_engine \<and>
   (\<exists>evs. fst (process_frames silero_engine [speech_frame, speech_frame, speech_frame]) = Inr evs \<and>
      length evs = length [speech_frame, speech_frame, speech_frame] \<and>
      (\<forall>ev \<in> set evs. state ev = Idle) \<and>
      vad_unit_result_count
        (snd (process_frames silero_engine [speech_frame, speech_frame, speech_frame])) = 0 \<and>
      \<not> prev_vad_unit_result
        (snd (process_frames silero_engine [speech_frame, speech_frame, speech_frame])) \<and>
      window_results silero_engine [speech_frame, speech_frame, speech_frame] = []) \<and>
   reachable (snd (process_frames silero_engine (replicate 9 speech_frame))) \<and>
   vad_state (snd (process_frames silero_engine (replicate 9 speech_frame))) = Continue \<and>
   prev_vad_unit_result (snd (process_frames silero_engine (replicate 9 speech_frame))) \<and>
   (\<exists>evs. fst (process_frames
                 (reset (snd (process_frames silero_engine (replicate 9 speech_frame))))
                 [speech_frame, speech_frame, speech_frame]) = Inr evs \<and>
      length evs = length [speech_frame, speech_frame, speech_frame] \<and>
      (\<forall>ev \<in> set evs. state ev = Idle) \<and>
      vad_unit_result_count
        (snd (process_frames
                (reset (snd (process_frames silero_engine (replicate 9 speech_frame))))
                [speech_frame, speech_frame, speech_frame])) = 0)"
proof -
  define e where "e = snd (process_frames silero_engine (replicate 9 speech_frame))"
  have i: "StreamingVAD_init 16000 2 160 5 10 30 False (marker_unit 640) = Inr silero_engine"
    by (simp add: silero_engine_def engine_of_init)
  then have d: "StreamingVAD_init 16000 2 160 5 10 30 False (marker_unit 640) = Inr silero_engine
      \<or> (reachable silero_engine \<and> silero_engine = reset silero_engine)"
    by simp
  have t: "1 \<le> start_frame_num_thresh silero_engine"
    by (simp add: eval_defs)
  have v: "valid_frame silero_engine speech_frame"
    by (simp add: valid_frame_def eval_defs)
  then have vs: "\<forall>f \<in> set [speech_frame, speech_frame, speech_frame]. valid_frame silero_engine f"
    by simp
  have l: "int (length [speech_frame, speech_frame, speech_frame]) < vad_unit_frame_ratio silero_engine"
    by (simp add: eval_defs)
  have r: "reachable e"
    unfolding e_def by (rule reachable_process_frames, rule reachable_init, rule i)
  have c: "vad_state e = Continue" "prev_vad_unit_result e"
    unfolding e_def by (simp_all add: eval_defs replicate_numeral)
  have d': "StreamingVAD_init 16000 2 160 5 10 30 False (marker_unit 640) = Inr (reset e)
      \<or> (reachable e \<and> reset e = reset e)"
    using r by simp
  have t': "1 \<le> start_frame_num_thresh (reset e)"
    unfolding e_def by (simp add: reset_def eval_defs replicate_numeral)
  have vs': "\<forall>f \<in> set [speech_frame, speech_frame, speech_frame]. valid_frame (reset e) f"
    unfolding e_def by (simp add: valid_frame_def reset_def eval_defs replicate_numeral)
  have l': "int (length [speech_frame, speech_frame, speech_frame]) < vad_unit_frame_ratio (reset e)"
    unfolding e_def by (simp add: reset_def eval_defs replicate_numeral)
  from first_calls_are_idle[OF d t vs l] first_calls_are_idle[OF d' t' vs' l'] i t v l r c
  show ?thesis unfolding e_def by blast
qed

text \<open>
  C4. The claim, that the payload of \<open>Started\<close> has
  \<open>min start_frame_rollback n\<close> frames after n frames, fails when
  \<open>start_frame_rollback\<close> is negative: the result buffer is emptied on every call, the
  payload has 0 frames, and the minimum is negative. With \<open>start_frame_rollback\<close> = -1
  and five frames of speech, \<open>Started\<close> comes on the fifth frame with an empty
  payload.
\<close>

theorem started_payload_negative_rollback:
  "StreamingVAD_init 16000 2 160 5 (- 1) 30 False (marker_unit 160)
     = Inr (engine_of 5 (- 1) 30 160) \<and>
   map_sum id (map state)
     (fst (process_frames (engine_of 5 (- 1) 30 160) (replicate 5 speech_frame)))
     = Inr [Idle, Idle, Idle, Idle, Started] \<and>
   map_sum id (map data)
     (fst (process_frames (engine_of 5 (- 1) 30 160) (replicate 5 speech_frame)))
     = Inr [[], [], [], [], []] \<and>
   min (- 1) (int (length (replicate 5 speech_frame))) = - 1"
  by (simp add: eval_defs replicate_numeral)

text \<open>
  C4, amended. When \<open>start_frame_rollback\<close> is not negative: on an engine just built by
  \<^verbatim>\<open>__init__\<close>, if a run of frames of the right size returns \<open>Idle\<close> events
  followed by one \<open>Started\<close> event (the engine has rested in \<open>Idle\<close> throughout), the
  payload of \<open>Started\<close> has \<open>min start_frame_rollback n\<close> frames, where n is the
  number of frames processed, the current one included.
\<close>

theorem started_payload_length:
  assumes "StreamingVAD_init sr sw spf st rb en oi vu = Inr e0"
    and "0 \<le> rb"
    and "\<forall>f \<in> set frames. valid_frame e0 f"
    and "fst (process_frames e0 frames) = Inr (idles @ [ev])"
    and "\<forall>x \<in> set idles. state x = Idle"
    and "state ev = Started"
  shows "int (length (data ev)) = min rb (int (length frames))"
proof -
  have d: "StreamingVAD_init sr sw spf st rb en oi vu = Inr e0 \<or> (reachable e0 \<and> e0 = reset e0)"
    using assms(1) by simp
  note f = fresh_engine[OF d]
  have r: "start_frame_rollback e0 = rb"
    using assms(1) by (auto simp: StreamingVAD_init_def split: if_splits)
  have "int (length (data ev)) =
      min (start_frame_rollback e0) (int (length (vad_result_buffer e0)) + int (length frames))"
    by (rule idle_run_payload[OF f(1,2) _ _ assms(3,4,5,6)]) (simp_all add: r f(6) assms(2))
  then show ?thesis
    by (simp add: r f(6))
qed

theorem started_payload_length_witness:
  "StreamingVAD_init 16000 2 160 5 10 30 False (marker_unit 160) = Inr default_engine \<and>
   valid_frame default_engine silence_frame \<and> valid_frame default_engine speech_frame \<and>
   fst (process_frames default_engine (replicate 4 silence_frame @ replicate 5 speech_frame))
     = Inr (replicate 8 \<lparr>state = Idle, data = []\<rparr> @
            [\<lparr>state = Started,
              data = replicate 4 silence_frame @ replicate 5 speech_frame\<rparr>]) \<and>
   int (length (data \<lparr>state = Started,
                      data = replicate 4 silence_frame @ replicate 5 speech_frame\<rparr>))
     = min 10 (int (length (replicate 4 silence_frame @ replicate 5 speech_frame)))"
proof -
  have v: "valid_frame default_engine silence_frame" "valid_frame default_engine speech_frame"
    by (simp_all add: valid_frame_def)
  then have vs: "\<forall>f \<in> set (replicate 4 silence_frame @ replicate 5 speech_frame).
      valid_frame default_engine f"
    by auto
  have r: "fst (process_frames default_engine
                  (replicate 4 silence_frame @ replicate 5 speech_frame))
     = Inr (replicate 8 \<lparr>state = Idle, data = []\<rparr> @
            [\<lparr>state = Started,
              data = replicate 4 silence_frame @ replicate 5 speech_frame\<rparr>])"
    by (simp add: eval_defs replicate_numeral)
  have i: "\<forall>x \<in> set (replicate 8 \<lparr>state = Idle, data = []\<rparr>). state x = Idle"
    by simp
  have s: "state \<lparr>state = Started,
                  data = replicate 4 silence_frame @ replicate 5 speech_frame\<rparr> = Started"
    by simp
  have n: "(0::int) \<le> 10"
    by simp
  from started_payload_length[OF default_engine_init n vs r i s] default_engine_init v r
  show ?thesis by blast
qed


text \<open>
  C6. On an engine that a program can hold, a call of \<^verbatim>\<open>process\<close> on a frame of the
  right size appends the frame to the unit's buffer. When the buffer then holds exactly
  \<open>vad_unit_frame_ratio\<close> frames, the unit's detector is applied once, to the
  concatenation of the buffered frames in arrival order; its verdict is the verdict in
  use, its next state is the unit's state, and the buffer is empty afterwards. Otherwise
  the verdict in use is the previous one, the unit is untouched, and the buffer keeps the
  frame. The verdict in use is the one the state machine receives. When
  \<open>vad_unit_frame_ratio\<close> is positive, the buffer holds fewer frames than that
  between calls; on a new engine the previous verdict is \<open>False\<close> and the buffer
  empty.
\<close>

theorem classifier_window:
  assumes "reachable e" and "valid_frame e f"
  shows "(classifier_invoked e \<longrightarrow>
            (\<exists>r s'. unit_model (vad_unit e) (unit_state (vad_unit e))
                       (concat (vad_unit_frame_buffer e @ [f])) = (r, s') \<and>
               prev_vad_unit_result (snd (process e f)) = r \<and>
               vad_unit (snd (process e f)) = (vad_unit e)\<lparr>unit_state := s'\<rparr> \<and>
               vad_unit_frame_buffer (snd (process e f)) = [])) \<and>
         (\<not> classifier_invoked e \<longrightarrow>
            prev_vad_unit_result (snd (process e f)) = prev_vad_unit_result e \<and>
            vad_unit (snd (process e f)) = vad_unit e \<and>
            vad_unit_frame_buffer (snd (process e f)) = vad_unit_frame_buffer e @ [f]) \<and>
         process e f =
           (case rollback_step (snd (classify_step e f)) f of
              (overflow_data, e2) \<Rightarrow>
                hysteresis_step e2 (prev_vad_unit_result (snd (process e f))) overflow_data) \<and>
         (0 < vad_unit_frame_ratio e \<longrightarrow>
            int (length (vad_unit_frame_buffer e)) < vad_unit_frame_ratio e \<and>
            int (length (vad_unit_frame_buffer (snd (process e f)))) < vad_unit_frame_ratio e) \<and>
         (StreamingVAD_init sr sw spf st rb en oi vu = Inr e \<longrightarrow>
            \<not> prev_vad_unit_result e \<and> vad_unit_frame_buffer e = [])"
proof -
  have ok: "engine_ok e"
    using assms(1) by (rule reachable_engine_ok)
  note c = process_keeps_classify_fields[OF ok assms(2)]
  have a: "\<exists>r s'. unit_model (vad_unit e) (unit_state (vad_unit e))
                       (concat (vad_unit_frame_buffer e @ [f])) = (r, s') \<and>
               prev_vad_unit_result (snd (process e f)) = r \<and>
               vad_unit (snd (process e f)) = (vad_unit e)\<lparr>unit_state := s'\<rparr> \<and>
               vad_unit_frame_buffer (snd (process e f)) = []"
    if "classifier_invoked e"
    unfolding c classify_step_invoked[OF ok assms(2) that]
    by (cases "unit_model (vad_unit e) (unit_state (vad_unit e))
                 (concat (vad_unit_frame_buffer e @ [f]))") simp
  have b: "prev_vad_unit_result (snd (process e f)) = prev_vad_unit_result e \<and>
            vad_unit (snd (process e f)) = vad_unit e \<and>
            vad_unit_frame_buffer (snd (process e f)) = vad_unit_frame_buffer e @ [f]"
    if "\<not> classifier_invoked e"
    using process_not_invoked[OF ok assms(2) that] by simp
  have p: "process e f =
           (case rollback_step (snd (classify_step e f)) f of
              (overflow_data, e2) \<Rightarrow>
                hysteresis_step e2 (prev_vad_unit_result (snd (process e f))) overflow_data)"
    unfolding c(1) by (rule process_valid[OF ok assms(2)])
  have ok': "engine_ok (snd (process e f))"
    using ok by (rule engine_ok_process)
  have l: "int (length (vad_unit_frame_buffer e)) < vad_unit_frame_ratio e \<and>
            int (length (vad_unit_frame_buffer (snd (process e f)))) < vad_unit_frame_ratio e"
    if "0 < vad_unit_frame_ratio e"
    using that ok ok' process_keeps_config(6)[OF refl, of e f] by (simp add: engine_ok_def)
  have i: "\<not> prev_vad_unit_result e \<and> vad_unit_frame_buffer e = []"
    if "StreamingVAD_init sr sw spf st rb en oi vu = Inr e"
    using that by (auto simp: StreamingVAD_init_def split: if_splits)
  from a b p l i show ?thesis by blast
qed

theorem classifier_window_witness:
  "StreamingVAD_init 16000 2 160 5 10 30 False (marker_unit 640) = Inr silero_engine \<and>
   reachable silero_engine \<and> valid_frame silero_engine speech_frame \<and>
   0 < vad_unit_frame_ratio silero_engine \<and>
   \<not> classifier_invoked silero_engine \<and>
   \<not> prev_vad_unit_result silero_engine \<and> vad_unit_frame_buffer silero_engine = [] \<and>
   prev_vad_unit_result (snd (process silero_engine speech_frame))
     = prev_vad_unit_result silero_engine \<and>
   vad_unit (snd (process silero_engine speech_frame)) = vad_unit silero_engine \<and>
   vad_unit_frame_buffer (snd (process silero_engine speech_frame))
     = vad_unit_frame_buffer silero_engine @ [speech_frame] \<and>
   int (length (vad_unit_frame_buffer (snd (process silero_engine speech_frame))))
     < vad_unit_frame_ratio silero_engine \<and>
   reachable (snd (process_frames silero_engine [silence_frame, silence_frame, silence_frame])) \<and>
   valid_frame (snd (process_frames silero_engine [silence_frame, silence_frame, silence_frame]))
     speech_frame \<and>
   classifier_invoked
     (snd (process_frames silero_engine [silence_frame, silence_frame, silence_frame])) \<and>
   (\<exists>r s'. unit_model
        (vad_unit (snd (process_frames silero_engine
           [silence_frame, silence_frame, silence_frame])))
        (unit_state (vad_unit (snd (process_frames silero_engine
           [silence_frame, silence_frame, silence_frame]))))
        (concat (vad_unit_frame_buffer (snd (process_frames silero_engine
           [silence_frame, silence_frame, silence_frame])) @ [speech_frame])) = (r, s') \<and>
      prev_vad_unit_result (snd (process (snd (process_frames silero_engine
           [silence_frame, silence_frame, silence_frame])) speech_frame)) = r \<and>
      vad_unit_frame_buffer (snd (process (snd (process_frames silero_engine
           [silence_frame, silence_frame, silence_frame])) speech_frame)) = [])"
proof -
  define e3 where
    "e3 = snd (process_frames silero_engine [silence_frame, silence_frame, silence_frame])"
  have i: "StreamingVAD_init 16000 2 160 5 10 30 False (marker_unit 640) = Inr silero_engine"
    by (simp add: silero_engine_def engine_of_init)
  have r0: "reachable silero_engine"
    using i by (rule reachable_init)
  have v0: "valid_frame silero_engine speech_frame"
    by (simp add: valid_frame_def eval_defs)
  have p0: "0 < vad_unit_frame_ratio silero_engine"
    by (simp add: eval_defs)
  have n0: "\<not> classifier_invoked silero_engine"
    by (simp add: classifier_invoked_def eval_defs)
  have r3: "reachable e3"
    unfolding e3_def using r0 by (rule reachable_process_frames)
  have v3: "valid_frame e3 speech_frame"
    unfolding e3_def by (simp add: valid_frame_def eval_defs)
  have c3: "classifier_invoked e3"
    unfolding e3_def by (simp add: classifier_invoked_def eval_defs)
  from classifier_window[OF r0 v0, where sr = 16000 and sw = 2 and spf = 160 and st = 5
      and rb = 10 and en = 30 and oi = False and vu = "marker_unit 640"]
    classifier_window[OF r3 v3, where sr = 16000 and sw = 2 and spf = 160 and st = 5
      and rb = 10 and en = 30 and oi = False and vu = "marker_unit 640"]
    i r0 v0 p0 n0 r3 v3 c3
  show ?thesis unfolding e3_def by blast
qed

text \<open>
  C7. After \<^verbatim>\<open>reset\<close> on an engine that a program can hold, a run of frames of the
  right size returns the same events as the same run on an engine just built by
  \<^verbatim>\<open>__init__\<close> with the same configuration, provided the VAD units return the same
  verdicts, window by window, in both runs; and the run returns one event per frame.
\<close>

theorem reset_behaves_as_fresh:
  assumes "reachable e"
    and "StreamingVAD_init sr sw spf st rb en oi vu = Inr e0"
    and "same_config e e0"
    and "\<forall>f \<in> set frames. valid_frame e0 f"
    and "window_results (reset e) frames = window_results e0 frames"
  shows "fst (process_frames (reset e) frames) = fst (process_frames e0 frames) \<and>
         (\<exists>evs. fst (process_frames e0 frames) = Inr evs \<and> length evs = length frames)"
proof -
  have ok: "engine_ok e"
    using assms(1) by (rule reachable_engine_ok)
  have okr: "engine_ok (reset e)"
    using ok by (rule engine_ok_reset)
  have ok0: "engine_ok e0"
    using assms(2) by (rule engine_ok_init)
  have d: "StreamingVAD_init sr sw spf st rb en oi vu = Inr e0 \<or> (reachable e0 \<and> e0 = reset e0)"
    using assms(2) by simp
  note f = fresh_engine[OF d]
  have s: "same_runtime (reset e) e0"
    using assms(3) ok ok0 f(2-6)
    by (simp add: same_runtime_def same_config_def reset_def engine_ok_def)
  have v: "\<forall>f \<in> set frames. valid_frame (reset e) f"
    using assms(4) s by (simp add: same_runtime_def valid_frame_def)
  have "fst (process_frames (reset e) frames) = fst (process_frames e0 frames)"
    using s okr ok0 v assms(5) by (rule same_runtime_run)
  with process_frames_returns[OF ok0 assms(4)] show ?thesis
    by simp
qed

theorem reset_behaves_as_fresh_witness:
  "reachable (snd (process_frames default_engine (replicate 6 speech_frame))) \<and>
   vad_state (snd (process_frames default_engine (replicate 6 speech_frame))) = Continue \<and>
   StreamingVAD_init 16000 2 160 5 10 30 False (marker_unit 160) = Inr default_engine \<and>
   same_config (snd (process_frames default_engine (replicate 6 speech_frame))) default_engine \<and>
   valid_frame default_engine silence_frame \<and> valid_frame default_engine speech_frame \<and>
   window_results (reset (snd (process_frames default_engine (replicate 6 speech_frame))))
       [silence_frame, speech_frame, speech_frame]
     = window_results default_engine [silence_frame, speech_frame, speech_frame] \<and>
   fst (process_frames (reset (snd (process_frames default_engine (replicate 6 speech_frame))))
          [silence_frame, speech_frame, speech_frame])
     = fst (process_frames default_engine [silence_frame, speech_frame, speech_frame]) \<and>
   (\<exists>evs. fst (process_frames default_engine [silence_frame, speech_frame, speech_frame])
             = Inr evs \<and>
          length evs = length [silence_frame, speech_frame, speech_frame])"
proof -
  define e where "e = snd (process_frames default_engine (replicate 6 speech_frame))"
  have r: "reachable e"
    unfolding e_def using reachable_default_engine by (rule reachable_process_frames)
  have c: "vad_state e = Continue"
    unfolding e_def by (simp add: eval_defs replicate_numeral)
  have s: "same_config e default_engine"
    unfolding e_def by (simp add: same_config_def eval_defs replicate_numeral)
  have v: "valid_frame default_engine silence_frame" "valid_frame default_engine speech_frame"
    by (simp_all add: valid_frame_def)
  then have vs: "\<forall>f \<in> set [silence_frame, speech_frame, speech_frame].
      valid_frame default_engine f"
    by simp
  have w: "window_results (reset e) [silence_frame, speech_frame, speech_frame]
     = window_results default_engine [silence_frame, speech_frame, speech_frame]"
    unfolding e_def
    by (simp add: reset_def classifier_invoked_def eval_defs replicate_numeral)
  from reset_behaves_as_fresh[OF r default_engine_init s vs w] r c default_engine_init s v w
  show ?thesis unfolding e_def by blast
qed

end
